theory Spec2Isabelle
  imports Complex_Main "HOL-Library.Word" "HOL-Library.Multiset"
begin

section \<open>The HDC prototype (hdc_prototype.py)\<close>

text \<open>
  The prototype works on NumPy arrays. Every producer of a hypervector in the file ends
  in \<^verbatim>\<open>.astype(np.int8)\<close>, so a hypervector is a one-dimensional array of signed
  8-bit integers: a list of 8-bit words, read with \<open>sint\<close>. NumPy arithmetic on int8
  arrays stays in int8 and wraps around.
\<close>

type_synonym int8 = "8 word"
type_synonym hypervector = "int8 list"

text \<open>
  Every exception the file can raise is a Python \<^verbatim>\<open>ValueError\<close>; the reason records
  the raise site:
  \<^item> \<open>Empty_bundle\<close>: the explicit \<^verbatim>\<open>raise ValueError("Expected at least one vector to
    bundle.")\<close> of \<^verbatim>\<open>bundle\<close>;
  \<^item> \<open>Shape_mismatch\<close>: NumPy refusing operands whose shapes do not fit (broadcasting in
    \<^verbatim>\<open>np.multiply\<close>, alignment in \<^verbatim>\<open>np.dot\<close>, an inhomogeneous list of rows in
    \<^verbatim>\<open>np.sum\<close>);
  \<^item> \<open>Negative_dimensions\<close>: NumPy refusing a negative \<^verbatim>\<open>size\<close>;
  \<^item> \<open>Seed_out_of_range\<close>: \<^verbatim>\<open>np.random.seed\<close> refusing a seed outside \<open>[0, 2^32)\<close>.
\<close>

datatype reason = Empty_bundle | Shape_mismatch | Negative_dimensions | Seed_out_of_range

datatype error = ValueError reason

text \<open>The abstract error kinds of the specification, and the kind of each raise site.\<close>

datatype error_kind = InvalidArgument | DimensionMismatch | EmptyInput

fun kind :: "error \<Rightarrow> error_kind" where
  "kind (ValueError Empty_bundle) = EmptyInput"
| "kind (ValueError Shape_mismatch) = DimensionMismatch"
| "kind (ValueError Negative_dimensions) = InvalidArgument"
| "kind (ValueError Seed_out_of_range) = InvalidArgument"

definition bipolar :: "hypervector \<Rightarrow> bool" where
  "bipolar v = list_all (\<lambda>x. x = 1 \<or> x = - 1) v"

definition nonzero :: "hypervector \<Rightarrow> bool" where
  "nonzero v = list_ex (\<lambda>x. x \<noteq> 0) v"

subsection \<open>bind\<close>

text \<open>
  \<^verbatim>\<open>np.multiply(a, b).astype(np.int8)\<close>: the element-wise product in int8. NumPy
  broadcasts one-dimensional operands: equal lengths multiply position by position, an
  operand of length 1 is stretched to the other's length, and any other pair of lengths
  raises \<^verbatim>\<open>ValueError\<close> (operands could not be broadcast together).
\<close>

definition bind :: "hypervector \<Rightarrow> hypervector \<Rightarrow> error + hypervector" where
  "bind a b =
     (if length a = length b then Inr (map2 (*) a b)
      else if length a = 1 then Inr (map (\<lambda>y. hd a * y) b)
      else if length b = 1 then Inr (map (\<lambda>x. x * hd b) a)
      else Inl (ValueError Shape_mismatch))"

subsection \<open>bundle\<close>

text \<open>
  The function \<^verbatim>\<open>bundle\<close> is called \<open>bundle_vectors\<close> here, \<open>bundle\<close> being a
  keyword of Isabelle.

  \<^verbatim>\<open>np.sum(vectors, axis=0)\<close> first turns the list of rows into a two-dimensional int8
  array, which NumPy (1.24 and later) refuses with \<^verbatim>\<open>ValueError\<close> when the rows differ
  in length. The reduction with \<^verbatim>\<open>add\<close> promotes int8 to the platform integer, here
  64 bits, so a column is summed in int64 (and wraps only there). \<^verbatim>\<open>summed >= 0\<close> is
  the signed comparison.
\<close>

type_synonym int64 = "64 word"

definition column_sums :: "hypervector list \<Rightarrow> int64 list" where
  "column_sums vectors =
     map (\<lambda>j. sum_list (map (\<lambda>v. (scast (v ! j) :: int64)) vectors))
       [0 ..< length (hd vectors)]"

definition bundle_vectors :: "hypervector list \<Rightarrow> error + hypervector" where
  "bundle_vectors vectors =
     (if vectors = [] then Inl (ValueError Empty_bundle)
      else if list_ex (\<lambda>v. length v \<noteq> length (hd vectors)) vectors
        then Inl (ValueError Shape_mismatch)
      else Inr (map (\<lambda>s. if word_sle 0 s then 1 else - 1) (column_sums vectors)))"

subsection \<open>cosine_similarity\<close>

text \<open>
  \<^verbatim>\<open>float(np.dot(a, b) / (np.linalg.norm(a) * np.linalg.norm(b)))\<close>.

  \<^item> \<^verbatim>\<open>np.dot\<close> of two one-dimensional arrays needs equal lengths (no broadcasting) and
    raises \<^verbatim>\<open>ValueError\<close> otherwise. On int8 operands its result is an int8 scalar:
    the sum of the products, reduced modulo \<open>2^8\<close>.
  \<^item> \<^verbatim>\<open>np.linalg.norm\<close> converts an integer array to float64 before squaring, so the
    norm does not wrap.
  \<^item> The quotient is a float64. Float rounding is not modelled: a finite float is a
    real number here. Dividing by \<open>0.0\<close> raises nothing in NumPy; \<open>0 / 0.0\<close> is NaN.
    (A zero denominator means one operand has only zero components, so the dot product
    is 0 as well and an infinite quotient cannot arise: lemma \<open>zero_norm_zero_dot\<close>.)
\<close>

datatype pyfloat = Finite real | NaN

definition dot :: "hypervector \<Rightarrow> hypervector \<Rightarrow> error + int8" where
  "dot a b =
     (if length a = length b then Inr (sum_list (map2 (*) a b))
      else Inl (ValueError Shape_mismatch))"

definition linalg_norm :: "hypervector \<Rightarrow> real" where
  "linalg_norm x = sqrt (sum_list (map (\<lambda>c. real_of_int (sint c) * real_of_int (sint c)) x))"

definition true_divide :: "int8 \<Rightarrow> real \<Rightarrow> pyfloat" where
  "true_divide n d = (if d = 0 then NaN else Finite (real_of_int (sint n) / d))"

definition cosine_similarity :: "hypervector \<Rightarrow> hypervector \<Rightarrow> error + pyfloat" where
  "cosine_similarity a b =
     (case dot a b of
        Inl e \<Rightarrow> Inl e
      | Inr d \<Rightarrow> Inr (true_divide d (linalg_norm a * linalg_norm b)))"

subsection \<open>Sorting as Python does\<close>

text \<open>
  Python compares floats with \<open><\<close> and \<open>>=\<close>; every comparison with NaN is false.
\<close>

fun float_lt :: "pyfloat \<Rightarrow> pyfloat \<Rightarrow> bool" where
  "float_lt (Finite x) (Finite y) = (x < y)"
| "float_lt _ _ = False"

fun float_ge :: "pyfloat \<Rightarrow> pyfloat \<Rightarrow> bool" where
  "float_ge (Finite x) (Finite y) = (y \<le> x)"
| "float_ge _ _ = False"

text \<open>The number a finite float stands for (used in proofs only, on floats that are not NaN).\<close>

primrec float_value :: "pyfloat \<Rightarrow> real" where
  "float_value (Finite x) = x"
| "float_value NaN = 0"

text \<open>
  \<^verbatim>\<open>sorted(xs, key=f, reverse=True)\<close>: CPython reverses the list, sorts it with its
  stable sort, which compares keys with \<open><\<close> only, and reverses the result. The stable
  sort is written as insertion from the left, each element going behind the elements
  that are not greater. Where \<open><\<close> totally preorders the keys every stable sort returns
  this list; with a NaN key CPython's result depends on the run boundaries of its merge
  sort, which are not modelled, and the theorems below exclude NaN keys.
\<close>

fun insort_right :: "('a \<Rightarrow> pyfloat) \<Rightarrow> 'a \<Rightarrow> 'a list \<Rightarrow> 'a list" where
  "insort_right key x [] = [x]"
| "insort_right key x (y # ys) =
     (if float_lt (key x) (key y) then x # y # ys else y # insort_right key x ys)"

fun sort_from :: "('a \<Rightarrow> pyfloat) \<Rightarrow> 'a list \<Rightarrow> 'a list \<Rightarrow> 'a list" where
  "sort_from key acc [] = acc"
| "sort_from key acc (x # xs) = sort_from key (insort_right key x acc) xs"

definition list_sort :: "('a \<Rightarrow> pyfloat) \<Rightarrow> 'a list \<Rightarrow> 'a list" where
  "list_sort key xs = sort_from key [] xs"

definition sorted_reverse :: "('a \<Rightarrow> pyfloat) \<Rightarrow> 'a list \<Rightarrow> 'a list" where
  "sorted_reverse key xs = rev (list_sort key (rev xs))"

subsection \<open>HDCDictionary\<close>

text \<open>
  A Python \<^verbatim>\<open>dict\<close> iterates in insertion order, and assigning to a key that is present
  replaces the value where the key stands. The dictionary is therefore an association
  list with distinct keys (\<open>wf_items\<close>), oldest key first.
\<close>

record hdc_dictionary =
  items :: "(string \<times> hypervector) list"

definition wf_items :: "hdc_dictionary \<Rightarrow> bool" where
  "wf_items self = distinct (map fst (items self))"

fun setitem :: "('k \<times> 'v) list \<Rightarrow> 'k \<Rightarrow> 'v \<Rightarrow> ('k \<times> 'v) list" where
  "setitem [] k v = [(k, v)]"
| "setitem ((k', v') # rest) k v =
     (if k' = k then (k', v) # rest else (k', v') # setitem rest k v)"

definition add :: "hdc_dictionary \<Rightarrow> string \<Rightarrow> hypervector \<Rightarrow> hdc_dictionary" where
  "add self key vector = self\<lparr>items := setitem (items self) key vector\<rparr>"

text \<open>The list comprehension of \<^verbatim>\<open>query\<close>: the first failing entry raises.\<close>

fun scores_of :: "hypervector \<Rightarrow> (string \<times> hypervector) list \<Rightarrow> error + (string \<times> pyfloat) list" where
  "scores_of vector [] = Inr []"
| "scores_of vector ((key, stored) # rest) =
     (case cosine_similarity vector stored of
        Inl e \<Rightarrow> Inl e
      | Inr c \<Rightarrow>
          (case scores_of vector rest of
             Inl e \<Rightarrow> Inl e
           | Inr cs \<Rightarrow> Inr ((key, c) # cs)))"

definition query :: "hdc_dictionary \<Rightarrow> hypervector \<Rightarrow> error + (string \<times> pyfloat) list" where
  "query self vector =
     (case scores_of vector (items self) of
        Inl e \<Rightarrow> Inl e
      | Inr scores \<Rightarrow> Inr (sorted_reverse snd scores))"

subsection \<open>The random generators\<close>

text \<open>
  The two global generators of \<^verbatim>\<open>random\<close> and \<^verbatim>\<open>numpy.random\<close> are library code. What
  the file uses of them is a parameter: how a seed initialises each generator, and how
  NumPy's generator draws one index into a population of two (\<open>False\<close> is index 0,
  \<open>True\<close> is index 1) and steps to its next state.
\<close>

record ('p, 'g) rng_library =
  random_seed :: "int \<Rightarrow> 'p"
  np_random_seed :: "nat \<Rightarrow> 'g"
  np_random_index :: "'g \<Rightarrow> bool \<times> 'g"

record ('p, 'g) rng_state =
  py_rng :: 'p
  np_rng :: 'g

definition DIMENSION :: int where
  "DIMENSION = 10000"

text \<open>
  \<^verbatim>\<open>random.seed\<close> takes any integer; \<^verbatim>\<open>np.random.seed\<close> raises \<^verbatim>\<open>ValueError\<close> unless
  \<open>0 \<le> seed < 2^32\<close>. Both replace the whole state of their generator. The exception
  ends the call, so no state is returned with it.
\<close>

definition set_seed ::
  "('p, 'g) rng_library \<Rightarrow> int \<Rightarrow> ('p, 'g) rng_state \<Rightarrow> error + ('p, 'g) rng_state" where
  "set_seed lib seed st =
     (let st1 = st\<lparr>py_rng := random_seed lib seed\<rparr>
      in if 0 \<le> seed \<and> seed < 2 ^ 32
         then Inr (st1\<lparr>np_rng := np_random_seed lib (nat seed)\<rparr>)
         else Inl (ValueError Seed_out_of_range))"

text \<open>
  \<^verbatim>\<open>np.random.choice([-1, 1], size=n)\<close> draws \<open>n\<close> indices and returns the population's
  entries at them.
\<close>

fun choice :: "('g \<Rightarrow> bool \<times> 'g) \<Rightarrow> nat \<Rightarrow> 'g \<Rightarrow> hypervector \<times> 'g" where
  "choice draw 0 g = ([], g)"
| "choice draw (Suc n) g =
     (case draw g of (i, g1) \<Rightarrow>
        (case choice draw n g1 of (rest, g2) \<Rightarrow> ((if i then 1 else - 1) # rest, g2)))"

text \<open>A negative \<^verbatim>\<open>size\<close> raises before anything is drawn; size 0 gives the empty array.\<close>

definition random_hypervector ::
  "('p, 'g) rng_library \<Rightarrow> int \<Rightarrow> ('p, 'g) rng_state
     \<Rightarrow> error + (hypervector \<times> ('p, 'g) rng_state)" where
  "random_hypervector lib dimension st =
     (if dimension < 0 then Inl (ValueError Negative_dimensions)
      else (case choice (np_random_index lib) (nat dimension) (np_rng st) of
              (v, g) \<Rightarrow> Inr (v, st\<lparr>np_rng := g\<rparr>)))"

text \<open>
  A run: \<^verbatim>\<open>set_seed(seed)\<close>, then one \<^verbatim>\<open>random_hypervector\<close> call for each requested
  dimension. The run records the outcome of every call and ends at the first exception.
\<close>

fun calls ::
  "('p, 'g) rng_library \<Rightarrow> int list \<Rightarrow> ('p, 'g) rng_state \<Rightarrow> (error + hypervector) list" where
  "calls lib [] st = []"
| "calls lib (d # ds) st =
     (case random_hypervector lib d st of
        Inl e \<Rightarrow> [Inl e]
      | Inr (v, st') \<Rightarrow> Inr v # calls lib ds st')"

definition seeded_run ::
  "('p, 'g) rng_library \<Rightarrow> int \<Rightarrow> int list \<Rightarrow> ('p, 'g) rng_state
     \<Rightarrow> (error + hypervector) list" where
  "seeded_run lib seed ds st =
     (case set_seed lib seed st of
        Inl e \<Rightarrow> [Inl e]
      | Inr st' \<Rightarrow> calls lib ds st')"

text \<open>A small memory and a small generator to run the definitions on.\<close>

definition example_memory :: hdc_dictionary where
  "example_memory =
     \<lparr>items = [(''a'', [- 1, 1]), (''b'', [1, 1]), (''c'', [1, - 1]), (''d'', [1, 1])]\<rparr>"

text \<open>The generator is a counter whose parity is the index drawn.\<close>

definition counter_library :: "(int, nat) rng_library" where
  "counter_library =
     \<lparr>random_seed = (\<lambda>s. s), np_random_seed = (\<lambda>s. s),
      np_random_index = (\<lambda>g. (odd g, Suc g))\<rparr>"

section \<open>Properties\<close>

subsection \<open>bind\<close>

lemma bipolar_square: "x = 1 \<or> x = - 1 \<Longrightarrow> x * x = (1 :: int8)"
  by auto

lemma map2_mult_cancel:
  "length a = length b \<Longrightarrow> bipolar b \<Longrightarrow> map2 (*) (map2 (*) a b) b = a"
proof (induction a b rule: list_induct2)
  case Nil
  then show ?case by simp
next
  case (Cons x xs y ys)
  from Cons.prems have y: "y = 1 \<or> y = - 1" and ys: "bipolar ys"
    by (simp_all add: bipolar_def)
  from y have "x * y * y = x"
    by (auto simp: mult.assoc)
  with Cons.IH ys show ?case by simp
qed

text \<open>
  C1. \<open>bind\<close> is self-inverse: for bipolar vectors \<open>a\<close> and \<open>b\<close> of equal length,
  binding \<open>a\<close> with \<open>b\<close> succeeds, and binding the result with \<open>b\<close> again succeeds
  and gives back \<open>a\<close>.
\<close>

theorem bind_self_inverse:
  assumes "bipolar a" and "bipolar b" and "length a = length b"
  shows "\<exists>c. bind a b = Inr c \<and> bind c b = Inr a"
  using assms by (simp add: bind_def map2_mult_cancel)

theorem bind_self_inverse_witness:
  "bipolar [1, - 1, 1] \<and> bipolar [- 1, - 1, 1]
   \<and> length [1, - 1, 1 :: int8] = length [- 1, - 1, 1 :: int8]
   \<and> (\<exists>c. bind [1, - 1, 1] [- 1, - 1, 1] = Inr c \<and> bind c [- 1, - 1, 1] = Inr [1, - 1, 1])"
proof -
  have a: "bipolar [1, - 1, 1]" and b: "bipolar [- 1, - 1, 1]"
    by (simp_all add: bipolar_def)
  have l: "length [1, - 1, 1 :: int8] = length [- 1, - 1, 1 :: int8]"
    by simp
  from bind_self_inverse [OF a b l] a b l show ?thesis by blast
qed

subsection \<open>bundle\<close>

lemma scast_sum_list:
  "sum_list (map (\<lambda>x. (scast x :: int64)) (col :: int8 list)) = word_of_int (sum_list (map sint col))"
  by (induction col) (simp_all add: wi_hom_add [symmetric])

lemma bipolar_sum_bound:
  "list_all (\<lambda>x. x = 1 \<or> x = - (1 :: int8)) col \<Longrightarrow> \<bar>sum_list (map sint col)\<bar> \<le> int (length col)"
  by (induction col) auto

lemma sle_word_of_int:
  "- (2 ^ 63) \<le> k \<Longrightarrow> k < 2 ^ 63 \<Longrightarrow> word_sle 0 (word_of_int k :: int64) \<longleftrightarrow> 0 \<le> k"
  by (simp add: word_sle_eq sint_sbintrunc' signed_take_bit_int_eq_self)

lemma bundle_rect:
  assumes "vs \<noteq> []" and "\<forall>v \<in> set vs. length v = n"
  shows "bundle_vectors vs =
    Inr (map (\<lambda>j. if word_sle 0 (word_of_int (sum_list (map (\<lambda>v. sint (v ! j)) vs)) :: int64) then 1 else - 1) [0 ..< n])"
proof -
  from assms have hd: "length (hd vs) = n"
    by (cases vs) simp_all
  have cs: "column_sums vs = map (\<lambda>j. word_of_int (sum_list (map (\<lambda>v. sint (v ! j)) vs))) [0 ..< n]"
    using scast_sum_list [of "map (\<lambda>v. v ! j) vs" for j]
    by (simp add: column_sums_def hd comp_def)
  from assms hd show ?thesis
    by (simp add: bundle_vectors_def cs list_ex_iff comp_def)
qed

lemma bundle_bipolar:
  assumes "vs \<noteq> []" and "\<forall>v \<in> set vs. bipolar v \<and> length v = n" and "length vs < 2 ^ 63"
  shows "bundle_vectors vs =
    Inr (map (\<lambda>j. if 0 \<le> sum_list (map (\<lambda>v. sint (v ! j)) vs) then 1 else - 1) [0 ..< n])"
proof -
  have "word_sle 0 (word_of_int (sum_list (map (\<lambda>v. sint (v ! j)) vs)) :: int64)
      \<longleftrightarrow> 0 \<le> sum_list (map (\<lambda>v. sint (v ! j)) vs)" if "j < n" for j
  proof -
    have "list_all (\<lambda>x. x = 1 \<or> x = - 1) (map (\<lambda>v. v ! j) vs)"
      using assms(2) that by (auto simp: list_all_iff bipolar_def)
    from bipolar_sum_bound [OF this]
    have "\<bar>sum_list (map (\<lambda>v. sint (v ! j)) vs)\<bar> \<le> int (length vs)"
      by (simp add: comp_def)
    moreover have "int (length vs) < 2 ^ 63"
      using assms(3) by (metis of_nat_less_iff of_nat_numeral of_nat_power)
    ultimately show ?thesis
      by (intro sle_word_of_int) linarith+
  qed
  then show ?thesis
    using assms(1,2) by (simp add: bundle_rect [where n = n])
qed

text \<open>
  C2. Bundling the empty collection fails, with the error kind EmptyInput. For a
  non-empty collection of bipolar vectors of one length \<open>n\<close> (fewer than \<open>2^63\<close> of them,
  so that the int64 column sums cannot wrap) the result has length \<open>n\<close>, is bipolar, and
  its component \<open>j\<close> is the sign of the sum of the components \<open>j\<close>, a zero sum giving
  \<open>+1\<close>. In particular bundling \<open>v\<close> with \<open>-v\<close> gives the vector of all \<open>+1\<close>.
\<close>

theorem bundle_sign_of_sum:
  "(\<exists>e. bundle_vectors [] = Inl e \<and> kind e = EmptyInput)
   \<and> (vs \<noteq> [] \<and> (\<forall>v \<in> set vs. bipolar v \<and> length v = n) \<and> length vs < 2 ^ 63 \<longrightarrow>
        (\<exists>r. bundle_vectors vs = Inr r \<and> length r = n \<and> bipolar r
           \<and> (\<forall>j < n. r ! j = (if 0 \<le> (\<Sum>v\<leftarrow>vs. sint (v ! j)) then 1 else - 1))))
   \<and> (bipolar v \<longrightarrow> bundle_vectors [v, map uminus v] = Inr (replicate (length v) 1))"
proof (intro conjI impI)
  show "\<exists>e. bundle_vectors [] = Inl e \<and> kind e = EmptyInput"
    by (simp add: bundle_vectors_def)
next
  assume h: "vs \<noteq> [] \<and> (\<forall>v \<in> set vs. bipolar v \<and> length v = n) \<and> length vs < 2 ^ 63"
  then have "bundle_vectors vs =
    Inr (map (\<lambda>j. if 0 \<le> sum_list (map (\<lambda>v. sint (v ! j)) vs) then 1 else - 1) [0 ..< n])"
    by (intro bundle_bipolar) simp_all
  then show "\<exists>r. bundle_vectors vs = Inr r \<and> length r = n \<and> bipolar r
           \<and> (\<forall>j < n. r ! j = (if 0 \<le> (\<Sum>v\<leftarrow>vs. sint (v ! j)) then 1 else - 1))"
    by (auto simp: bipolar_def list_all_iff)
next
  assume v: "bipolar v"
  have "\<forall>u \<in> set [v, map uminus v]. bipolar u \<and> length u = length v"
    using v by (auto simp: bipolar_def list_all_iff)
  then have "bundle_vectors [v, map uminus v] =
    Inr (map (\<lambda>j. if 0 \<le> sum_list (map (\<lambda>u. sint (u ! j)) [v, map uminus v]) then 1 else - 1) [0 ..< length v])"
    by (intro bundle_bipolar) simp_all
  moreover have "sint (v ! j) + sint (map uminus v ! j) = 0" if "j < length v" for j
  proof -
    from v that have "v ! j = 1 \<or> v ! j = - 1"
      by (simp add: bipolar_def list_all_length)
    then show ?thesis using that by auto
  qed
  ultimately show "bundle_vectors [v, map uminus v] = Inr (replicate (length v) 1)"
    by (simp add: map_replicate_trivial [symmetric] cong: map_cong)
qed


theorem bundle_sign_of_sum_witness:
  "bipolar [1, - 1, 1] \<and> bipolar [- 1, 1, 1] \<and> bipolar [- 1, - 1, 1]
   \<and> (\<exists>r. bundle_vectors [[1, - 1, 1], [- 1, 1, 1], [- 1, - 1, 1]] = Inr r \<and> length r = 3
          \<and> r ! 0 = - 1 \<and> r ! 1 = - 1 \<and> r ! 2 = 1)
   \<and> bundle_vectors [[1, - 1], [- 1, 1]] = Inr [1, 1]"
proof -
  let ?vs = "[[1, - 1, 1], [- 1, 1, 1], [- 1, - 1, 1]] :: hypervector list"
  have b: "bipolar [1, - 1, 1]" "bipolar [- 1, 1, 1]" "bipolar [- 1, - 1, 1]" "bipolar [1, - 1]"
    by (simp_all add: bipolar_def)
  then have h: "?vs \<noteq> [] \<and> (\<forall>v \<in> set ?vs. bipolar v \<and> length v = 3) \<and> length ?vs < 2 ^ 63"
    by simp
  note t = bundle_sign_of_sum [of ?vs 3 "[1, - 1]"]
  from t h obtain r where r: "bundle_vectors ?vs = Inr r" "length r = 3"
    and nth: "\<forall>j < 3. r ! j = (if 0 \<le> (\<Sum>v\<leftarrow>?vs. sint (v ! j)) then 1 else - 1)"
    by blast
  from nth have "r ! 0 = - 1" "r ! 1 = - 1" "r ! 2 = 1"
    by simp_all
  moreover from t b(4) have "bundle_vectors [[1, - 1], [- 1, 1]] = Inr [1, 1]"
    by (simp add: numeral_2_eq_2)
  ultimately show ?thesis
    using b r by blast
qed

text \<open>
  C4. Operands of differing lengths. \<open>bind\<close> does not fail when one operand has length
  1: NumPy stretches it to the length of the other.
\<close>

theorem length_mismatch_counterexample:
  "length [1, - 1, 1 :: int8] \<noteq> length [- 1 :: int8] \<and> bind [1, - 1, 1] [- 1] = Inr [- 1, 1, - 1]"
  by (simp add: bind_def)

text \<open>
  C4, as the code has it. For operands of differing lengths \<open>cosine_similarity\<close> fails
  with the error kind DimensionMismatch; \<open>bind\<close> fails with that kind when neither
  operand has length 1, and otherwise multiplies every component of the longer operand by
  the single component of the other. Bundling a collection that holds two vectors of
  differing lengths fails with the kind DimensionMismatch.
\<close>

theorem length_mismatch:
  "(length a \<noteq> length b \<longrightarrow>
      (\<exists>e. cosine_similarity a b = Inl e \<and> kind e = DimensionMismatch)
      \<and> (length a \<noteq> 1 \<and> length b \<noteq> 1 \<longrightarrow> (\<exists>e. bind a b = Inl e \<and> kind e = DimensionMismatch))
      \<and> (length a = 1 \<longrightarrow> bind a b = Inr (map (\<lambda>y. hd a * y) b))
      \<and> (length b = 1 \<longrightarrow> bind a b = Inr (map (\<lambda>x. x * hd b) a)))
   \<and> (u \<in> set vs \<and> w \<in> set vs \<and> length u \<noteq> length w \<longrightarrow>
        (\<exists>e. bundle_vectors vs = Inl e \<and> kind e = DimensionMismatch))"
proof (intro conjI impI)
  assume h: "u \<in> set vs \<and> w \<in> set vs \<and> length u \<noteq> length w"
  then have "vs \<noteq> []"
    by auto
  moreover from h have "\<exists>v \<in> set vs. length v \<noteq> length (hd vs)"
    by (cases "length u = length (hd vs)") (metis, blast)
  ultimately
  show "\<exists>e. bundle_vectors vs = Inl e \<and> kind e = DimensionMismatch"
    by (simp add: bundle_vectors_def list_ex_iff)
qed (auto simp: cosine_similarity_def dot_def bind_def)

theorem length_mismatch_witness:
  "length [1, - 1 :: int8] \<noteq> length [1, 1, - 1 :: int8]
   \<and> cosine_similarity [1, - 1] [1, 1, - 1] = Inl (ValueError Shape_mismatch)
   \<and> bind [1, - 1] [1, 1, - 1] = Inl (ValueError Shape_mismatch)
   \<and> bundle_vectors [[1, - 1], [1, 1, - 1]] = Inl (ValueError Shape_mismatch)
   \<and> bind [- 1] [1, 1, - 1] = Inr [- 1, - 1, 1]
   \<and> bind [1, 1, - 1] [- 1] = Inr [- 1, - 1, 1]"
proof -
  have k: "kind e = DimensionMismatch \<longleftrightarrow> e = ValueError Shape_mismatch" for e
    by (cases e rule: kind.cases) simp_all
  have l: "length [1, - 1 :: int8] \<noteq> length [1, 1, - 1 :: int8]"
    "length [- 1 :: int8] \<noteq> length [1, 1, - 1 :: int8]"
    "length [1, 1, - 1 :: int8] \<noteq> length [- 1 :: int8]"
    by simp_all
  from length_mismatch [of "[1, - 1]" "[1, 1, - 1]" "[1, - 1]" "[[1, - 1], [1, 1, - 1]]" "[1, 1, - 1]"] l(1)
  have "cosine_similarity [1, - 1] [1, 1, - 1] = Inl (ValueError Shape_mismatch)"
    "bind [1, - 1] [1, 1, - 1] = Inl (ValueError Shape_mismatch)"
    "bundle_vectors [[1, - 1], [1, 1, - 1]] = Inl (ValueError Shape_mismatch)"
    by (auto simp: k)
  moreover from length_mismatch [of "[- 1]" "[1, 1, - 1]" "[]" "[]" "[]"] l(2)
  have "bind [- 1] [1, 1, - 1] = Inr [- 1, - 1, 1]"
    by simp
  moreover from length_mismatch [of "[1, 1, - 1]" "[- 1]" "[]" "[]" "[]"] l(3)
  have "bind [1, 1, - 1] [- 1] = Inr [- 1, - 1, 1]"
    by simp
  ultimately show ?thesis
    using l(1) by blast
qed

subsection \<open>random_hypervector and set_seed\<close>

lemma choice_length_bipolar:
  "choice draw n g = (v, g') \<Longrightarrow> length v = n \<and> bipolar v"
proof (induction n arbitrary: g v g')
  case 0
  then show ?case by (simp add: bipolar_def)
next
  case (Suc n)
  obtain i g1 where d: "draw g = (i, g1)"
    by (cases "draw g")
  obtain rest g2 where c: "choice draw n g1 = (rest, g2)"
    by (cases "choice draw n g1")
  from Suc.IH [OF c] Suc.prems d c show ?case
    by (auto simp: bipolar_def)
qed

text \<open>
  C7. For every positive dimension \<open>D\<close>, whatever the generator and its state,
  \<open>random_hypervector\<close> returns a vector of length exactly \<open>D\<close> whose components are
  all \<open>-1\<close> or \<open>+1\<close>.
\<close>

theorem random_hypervector_bipolar:
  assumes "0 < dimension"
  shows "\<exists>v st'. random_hypervector lib dimension st = Inr (v, st')
           \<and> int (length v) = dimension \<and> bipolar v"
proof -
  obtain v g where c: "choice (np_random_index lib) (nat dimension) (np_rng st) = (v, g)"
    by (cases "choice (np_random_index lib) (nat dimension) (np_rng st)")
  from choice_length_bipolar [OF c] assms c show ?thesis
    by (simp add: random_hypervector_def)
qed

theorem random_hypervector_bipolar_witness:
  "(0 :: int) < 5
   \<and> (\<exists>v st'. random_hypervector counter_library 5 \<lparr>py_rng = 0, np_rng = 0\<rparr> = Inr (v, st')
         \<and> int (length v) = 5 \<and> bipolar v)"
proof -
  have h: "(0 :: int) < 5" by simp
  from random_hypervector_bipolar [OF h, of counter_library "\<lparr>py_rng = 0, np_rng = 0\<rparr>"] h
  show ?thesis by blast
qed

lemma set_seed_replaces_state:
  "set_seed lib seed st =
     (if 0 \<le> seed \<and> seed < 2 ^ 32
      then Inr \<lparr>py_rng = random_seed lib seed, np_rng = np_random_seed lib (nat seed)\<rparr>
      else Inl (ValueError Seed_out_of_range))"
  by (cases st) (simp add: set_seed_def)

text \<open>
  C9. Generation is determined by the seed: two runs that begin with \<open>set_seed\<close> of the
  same seed and issue the same sequence of \<open>random_hypervector\<close> calls record the same
  outcome at every call, whatever state the generators were in before each run.
\<close>

theorem seeded_run_deterministic:
  "seeded_run lib seed ds st1 = seeded_run lib seed ds st2"
  by (simp add: seeded_run_def set_seed_replaces_state)

text \<open>
  C5. Dimension 0 is not refused: \<open>random_hypervector\<close> returns the empty vector.
  \<open>cosine_similarity\<close> of two vectors of length 0 returns NaN and raises nothing, and of
  a vector of length 0 and a longer one it fails with the kind DimensionMismatch, not
  InvalidArgument.
\<close>

theorem invalid_argument_counterexample:
  "random_hypervector counter_library 0 \<lparr>py_rng = 0, np_rng = 0\<rparr> = Inr ([], \<lparr>py_rng = 0, np_rng = 0\<rparr>)
   \<and> cosine_similarity [] [] = Inr NaN
   \<and> cosine_similarity [] [1] = Inl (ValueError Shape_mismatch)
   \<and> kind (ValueError Shape_mismatch) = DimensionMismatch"
  by (simp add: random_hypervector_def cosine_similarity_def dot_def true_divide_def linalg_norm_def)

text \<open>
  C5, as the code has it. \<open>random_hypervector\<close> fails with the error kind InvalidArgument
  for every negative dimension and returns the empty vector, drawing nothing, for dimension
  0. \<open>cosine_similarity\<close> of two vectors of length 0 is NaN; of a vector of length 0 and
  a non-empty vector, in either order, it fails with the kind DimensionMismatch.
\<close>

theorem invalid_argument:
  "(dimension < 0 \<longrightarrow>
      random_hypervector lib dimension st = Inl (ValueError Negative_dimensions)
      \<and> kind (ValueError Negative_dimensions) = InvalidArgument)
   \<and> random_hypervector lib 0 st = Inr ([], st)
   \<and> cosine_similarity [] [] = Inr NaN
   \<and> (b \<noteq> [] \<longrightarrow>
        (\<exists>e. cosine_similarity [] b = Inl e \<and> kind e = DimensionMismatch)
        \<and> (\<exists>e. cosine_similarity b [] = Inl e \<and> kind e = DimensionMismatch))"
  by (simp add: random_hypervector_def cosine_similarity_def dot_def true_divide_def linalg_norm_def)

theorem invalid_argument_witness:
  "(- 3 :: int) < 0 \<and> [1 :: int8] \<noteq> []
   \<and> random_hypervector counter_library (- 3) \<lparr>py_rng = 0, np_rng = 0\<rparr> = Inl (ValueError Negative_dimensions)
   \<and> cosine_similarity [] [1] = Inl (ValueError Shape_mismatch)
   \<and> cosine_similarity [1] [] = Inl (ValueError Shape_mismatch)"
proof -
  have k: "kind e = DimensionMismatch \<longleftrightarrow> e = ValueError Shape_mismatch" for e
    by (cases e rule: kind.cases) simp_all
  have h: "(- 3 :: int) < 0" "[1 :: int8] \<noteq> []"
    by simp_all
  from invalid_argument [of "- 3" counter_library "\<lparr>py_rng = 0, np_rng = 0\<rparr>" "[1]"] h
  show ?thesis
    by (auto simp: k)
qed

subsection \<open>HDCDictionary\<close>

lemma map_of_setitem: "map_of (setitem al k v) = (map_of al)(k \<mapsto> v)"
  by (induction al k v rule: setitem.induct) auto

lemma keys_setitem:
  "map fst (setitem al k v) = (if k \<in> fst ` set al then map fst al else map fst al @ [k])"
  by (induction al k v rule: setitem.induct) auto

lemma wf_items_add: "wf_items self \<Longrightarrow> wf_items (add self key vector)"
  by (simp add: wf_items_def add_def keys_setitem)

text \<open>
  C6. The memory raises nothing of its own. \<open>add\<close> has no failing branch: after it the
  key maps to the given vector and every other key maps to what it did before. A query of
  the empty memory returns the empty sequence.
\<close>

theorem memory_raises_nothing:
  "map_of (items (add self key vector)) = (map_of (items self))(key \<mapsto> vector)
   \<and> query \<lparr>items = []\<rparr> q = Inr []"
  by (simp add: add_def map_of_setitem query_def sorted_reverse_def list_sort_def)

subsection \<open>cosine_similarity\<close>

lemma sum_squares_bipolar:
  "bipolar v \<Longrightarrow> sum_list (map (\<lambda>c. real_of_int (sint c) * real_of_int (sint c)) v) = real (length v)"
  by (induction v) (auto simp: bipolar_def)

lemma linalg_norm_bipolar: "bipolar v \<Longrightarrow> linalg_norm v = sqrt (real (length v))"
  by (simp only: linalg_norm_def sum_squares_bipolar)

lemma dot_self_bipolar: "bipolar v \<Longrightarrow> sum_list (map2 (*) v v) = (of_nat (length v) :: int8)"
  by (induction v) (auto simp: bipolar_def)

lemma dot_neg_bipolar:
  "bipolar v \<Longrightarrow> sum_list (map2 (*) v (map uminus v)) = (- of_nat (length v) :: int8)"
  by (induction v) (auto simp: bipolar_def)

lemma sum_squares_zero:
  "sum_list (map (\<lambda>c. real_of_int (sint c) * real_of_int (sint c)) v) = 0 \<Longrightarrow> \<forall>x \<in> set (v :: hypervector). x = 0"
proof (induction v)
  case Nil
  then show ?case by simp
next
  case (Cons c v)
  have nn: "0 \<le> sum_list (map (\<lambda>c. real_of_int (sint c) * real_of_int (sint c)) v)"
    by (rule sum_list_nonneg) auto
  moreover have "0 \<le> real_of_int (sint c) * real_of_int (sint c)"
    by simp
  ultimately have "real_of_int (sint c) * real_of_int (sint c) = 0"
    and "sum_list (map (\<lambda>c. real_of_int (sint c) * real_of_int (sint c)) v) = 0"
    using Cons.prems by (simp_all add: add_nonneg_eq_0_iff)
  with Cons.IH show ?case by (simp add: signed_eq_0_iff)
qed

lemma zero_norm_zero_dot:
  assumes "length a = length b" and "linalg_norm a * linalg_norm b = 0"
  shows "dot a b = Inr 0"
proof -
  have sq: "0 \<le> sum_list (map (\<lambda>c. real_of_int (sint c) * real_of_int (sint c)) v)" for v :: hypervector
    by (rule sum_list_nonneg) auto
  from assms(2) have "(\<forall>x \<in> set a. x = 0) \<or> (\<forall>x \<in> set b. x = 0)"
    using sum_squares_zero [of a] sum_squares_zero [of b] sq [of a] sq [of b]
    unfolding linalg_norm_def mult_eq_0_iff real_sqrt_eq_0_iff by blast
  then have "\<forall>p \<in> set (zip a b). fst p * snd p = 0"
    by (auto elim!: in_set_zipE)
  then have "sum_list (map2 (*) a b) = sum_list (map (\<lambda>p. 0) (zip a b))"
    by (intro arg_cong [where f = sum_list] map_cong) auto
  then have "sum_list (map2 (*) a b) = 0"
    by simp
  then show ?thesis
    using assms(1) by (simp add: dot_def)
qed

lemma cosine_similarity_total:
  assumes "bipolar a" and "bipolar b" and "length a = length b" and "0 < length a"
  shows "\<exists>x. cosine_similarity a b = Inr (Finite x)"
  using assms by (simp add: cosine_similarity_def dot_def true_divide_def linalg_norm_bipolar)

lemma sint_of_nat_small: "n < 128 \<Longrightarrow> sint (of_nat n :: int8) = int n"
proof -
  assume "n < 128"
  have "(of_nat n :: int8) = word_of_int (int n)"
    by simp
  then show ?thesis
    using \<open>n < 128\<close> by (simp only: sint_sbintrunc') (simp add: signed_take_bit_int_eq_self)
qed

lemma sint_neg_of_nat_small: "n < 128 \<Longrightarrow> sint (- of_nat n :: int8) = - int n"
proof -
  assume "n < 128"
  have "(- of_nat n :: int8) = word_of_int (- int n)"
    by simp
  then show ?thesis
    using \<open>n < 128\<close> by (simp only: sint_sbintrunc') (simp add: signed_take_bit_int_eq_self)
qed

lemma cosine_self_below_128:
  assumes "bipolar v" and "0 < length v" and "length v < 128"
  shows "cosine_similarity v v = Inr (Finite 1)"
    and "cosine_similarity v (map uminus v) = Inr (Finite (- 1))"
proof -
  have m: "bipolar (map uminus v)"
    using assms(1) by (auto simp: bipolar_def list_all_iff)
  show "cosine_similarity v v = Inr (Finite 1)"
    using assms
    by (simp add: cosine_similarity_def dot_def true_divide_def linalg_norm_bipolar
        dot_self_bipolar sint_of_nat_small)
  show "cosine_similarity v (map uminus v) = Inr (Finite (- 1))"
    using assms m
    by (simp add: cosine_similarity_def dot_def true_divide_def linalg_norm_bipolar
        dot_neg_bipolar sint_neg_of_nat_small)
qed

lemma bipolar_replicate: "bipolar (replicate n 1)"
  by (simp add: bipolar_def list_all_iff)

text \<open>
  C8. The norm of a bipolar vector of length \<open>D\<close> is \<open>sqrt D\<close> and the similarity of two
  bipolar vectors of equal positive length is a finite number (\<open>linalg_norm_bipolar\<close>,
  \<open>cosine_similarity_total\<close>), and for \<open>D < 128\<close> the similarity of \<open>v\<close> with itself is 1
  and with \<open>-v\<close> is \<open>-1\<close> (\<open>cosine_self_below_128\<close>). From \<open>D = 128\<close> on the int8 dot
  product wraps: the vector of 256 ones is bipolar and its similarity with itself is 0, and
  at the default dimension 10000 the similarity of the all-ones vector with itself is
  \<open>16 / 10000\<close>.
\<close>

theorem cosine_self_wraps:
  "bipolar (replicate 256 1)
   \<and> cosine_similarity (replicate 256 1) (replicate 256 1) = Inr (Finite 0)
   \<and> cosine_similarity (replicate (nat DIMENSION) 1) (replicate (nat DIMENSION) 1)
       = Inr (Finite (16 / 10000))"
proof -
  show ?thesis
    by (simp add: cosine_similarity_def dot_def true_divide_def DIMENSION_def
        linalg_norm_bipolar bipolar_replicate sum_list_replicate)
qed

subsection \<open>Sorting\<close>

lemma float_lt_value: "a \<noteq> NaN \<Longrightarrow> b \<noteq> NaN \<Longrightarrow> float_lt a b \<longleftrightarrow> float_value a < float_value b"
  by (cases a; cases b) simp_all

lemma float_ge_value: "a \<noteq> NaN \<Longrightarrow> b \<noteq> NaN \<Longrightarrow> float_ge a b \<longleftrightarrow> float_value b \<le> float_value a"
  by (cases a; cases b) simp_all

lemma mset_insort_right: "mset (insort_right key x ys) = add_mset x (mset ys)"
  by (induction ys) simp_all

lemma set_insort_right: "set (insort_right key x ys) = insert x (set ys)"
  by (induction ys) auto

lemma mset_sort_from: "mset (sort_from key acc xs) = mset acc + mset xs"
  by (induction xs arbitrary: acc) (simp_all add: mset_insort_right)

text \<open>Ascending: no element is less than one before it.\<close>

lemma ascending_insort_right:
  assumes "\<forall>z \<in> set (x # ys). key z \<noteq> NaN"
    and "sorted_wrt (\<lambda>a b. \<not> float_lt (key b) (key a)) ys"
  shows "sorted_wrt (\<lambda>a b. \<not> float_lt (key b) (key a)) (insort_right key x ys)"
  using assms
proof (induction ys)
  case Nil
  then show ?case by simp
next
  case (Cons y ys)
  show ?case
  proof (cases "float_lt (key x) (key y)")
    case True
    have "\<not> float_lt (key z) (key x)" if "z \<in> set (y # ys)" for z
    proof -
      from Cons.prems that have "float_value (key y) \<le> float_value (key z)"
        by (auto simp: float_lt_value)
      moreover from True Cons.prems have "float_value (key x) < float_value (key y)"
        by (simp add: float_lt_value)
      ultimately show ?thesis
        using Cons.prems that by (auto simp: float_lt_value)
    qed
    with True Cons.prems(2) show ?thesis
      by simp
  next
    case False
    with Cons show ?thesis
      by (auto simp: set_insort_right)
  qed
qed

lemma filter_insort_right:
  assumes "\<forall>z \<in> set (x # ys). key z \<noteq> NaN"
    and "sorted_wrt (\<lambda>a b. \<not> float_lt (key b) (key a)) ys"
  shows "filter (\<lambda>e. key e = c) (insort_right key x ys)
    = filter (\<lambda>e. key e = c) ys @ (if key x = c then [x] else [])"
  using assms
proof (induction ys)
  case Nil
  then show ?case by simp
next
  case (Cons y ys)
  show ?case
  proof (cases "float_lt (key x) (key y)")
    case True
    have "key z \<noteq> key x" if "z \<in> set (y # ys)" for z
    proof -
      from Cons.prems that have "float_value (key y) \<le> float_value (key z)"
        by (auto simp: float_lt_value)
      moreover from True Cons.prems have "float_value (key x) < float_value (key y)"
        by (simp add: float_lt_value)
      ultimately show ?thesis
        by auto
    qed
    then have e: "key x = c \<Longrightarrow> filter (\<lambda>e. key e = c) (y # ys) = []"
      by (auto simp: filter_empty_conv simp del: filter.simps)
    show ?thesis
    proof (cases "key x = c")
      case True
      with \<open>float_lt (key x) (key y)\<close> e show ?thesis
        by (simp del: filter.simps) simp
    next
      case False
      with \<open>float_lt (key x) (key y)\<close> show ?thesis
        by simp
    qed
  next
    case False
    with Cons show ?thesis
      by simp
  qed
qed

lemma sort_from_stable:
  assumes "\<forall>z \<in> set (acc @ xs). key z \<noteq> NaN"
    and "sorted_wrt (\<lambda>a b. \<not> float_lt (key b) (key a)) acc"
  shows "sorted_wrt (\<lambda>a b. \<not> float_lt (key b) (key a)) (sort_from key acc xs)
    \<and> filter (\<lambda>e. key e = c) (sort_from key acc xs)
        = filter (\<lambda>e. key e = c) acc @ filter (\<lambda>e. key e = c) xs"
  using assms
proof (induction xs arbitrary: acc)
  case Nil
  then show ?case by simp
next
  case (Cons x xs)
  from Cons.prems have n: "\<forall>z \<in> set (x # acc). key z \<noteq> NaN"
    by simp
  have a: "sorted_wrt (\<lambda>a b. \<not> float_lt (key b) (key a)) (insort_right key x acc)"
    using n Cons.prems(2) by (rule ascending_insort_right)
  have "\<forall>z \<in> set (insort_right key x acc @ xs). key z \<noteq> NaN"
    using Cons.prems(1) by (simp add: set_insort_right)
  from Cons.IH [OF this a] filter_insort_right [OF n Cons.prems(2), of c]
  show ?case by simp
qed

lemma sorted_reverse_mset: "mset (sorted_reverse key xs) = mset xs"
  by (simp add: sorted_reverse_def list_sort_def mset_sort_from)

lemma sorted_reverse_descending:
  assumes "\<forall>z \<in> set xs. key z \<noteq> NaN"
  shows "sorted_wrt (\<lambda>a b. float_ge (key a) (key b)) (sorted_reverse key xs)"
proof -
  have "sorted_wrt (\<lambda>a b. \<not> float_lt (key b) (key a)) (list_sort key (rev xs))"
    unfolding list_sort_def using sort_from_stable [of "[]" "rev xs" key] assms by simp
  then have "sorted_wrt (\<lambda>a b. \<not> float_lt (key a) (key b)) (sorted_reverse key xs)"
    by (simp add: sorted_reverse_def sorted_wrt_rev)
  moreover have "set (sorted_reverse key xs) = set xs"
    using sorted_reverse_mset [of key xs] by (metis set_mset_mset)
  ultimately show ?thesis
    using assms
    by (elim sorted_wrt_mono_rel [rotated]) (auto simp: float_ge_value float_lt_value)
qed

lemma sorted_reverse_stable:
  assumes "\<forall>z \<in> set xs. key z \<noteq> NaN"
  shows "filter (\<lambda>e. key e = c) (sorted_reverse key xs) = filter (\<lambda>e. key e = c) xs"
proof -
  have "filter (\<lambda>e. key e = c) (list_sort key (rev xs)) = filter (\<lambda>e. key e = c) (rev xs)"
    unfolding list_sort_def using sort_from_stable [of "[]" "rev xs" key c] assms by simp
  then show ?thesis
    by (simp add: sorted_reverse_def rev_filter [symmetric])
qed


subsection \<open>query\<close>

lemma bipolar_nonzero: "bipolar v \<Longrightarrow> 0 < length v \<Longrightarrow> nonzero v"
  by (cases v) (auto simp: bipolar_def nonzero_def)

lemma linalg_norm_nonzero: "nonzero v \<Longrightarrow> linalg_norm v \<noteq> 0"
proof
  assume "nonzero v" and "linalg_norm v = 0"
  have "0 \<le> sum_list (map (\<lambda>c. real_of_int (sint c) * real_of_int (sint c)) v)"
    by (rule sum_list_nonneg) auto
  with \<open>linalg_norm v = 0\<close> have "\<forall>x \<in> set v. x = 0"
    using sum_squares_zero [of v] unfolding linalg_norm_def real_sqrt_eq_0_iff by blast
  with \<open>nonzero v\<close> show False
    by (auto simp: nonzero_def list_ex_iff)
qed

lemma cosine_similarity_finite:
  assumes "nonzero a" and "nonzero b" and "length a = length b"
  shows "\<exists>x. cosine_similarity a b = Inr (Finite x)"
  using assms by (simp add: cosine_similarity_def dot_def true_divide_def linalg_norm_nonzero)

lemma scores_of_nonzero:
  assumes "nonzero q"
    and "\<forall>(k, s) \<in> set its. nonzero s \<and> length s = length q"
  shows "\<exists>cs. scores_of q its = Inr cs \<and> map fst cs = map fst its
           \<and> (\<forall>e \<in> set cs. snd e \<noteq> NaN)
           \<and> list_all2 (\<lambda>(k, s) (k', c). k' = k \<and> cosine_similarity q s = Inr c) its cs"
  using assms(2)
proof (induction its)
  case Nil
  then show ?case by simp
next
  case (Cons p its)
  obtain k s where p: "p = (k, s)"
    by (cases p)
  with Cons.prems have "nonzero s" "length q = length s"
    by simp_all
  with assms(1) obtain x where x: "cosine_similarity q s = Inr (Finite x)"
    using cosine_similarity_finite [of q s] by auto
  from Cons obtain cs where "scores_of q its = Inr cs" "map fst cs = map fst its"
    "\<forall>e \<in> set cs. snd e \<noteq> NaN"
    "list_all2 (\<lambda>(k, s) (k', c). k' = k \<and> cosine_similarity q s = Inr c) its cs"
    by auto
  with p x show ?case
    by simp
qed

lemma scored_entry_stored:
  assumes "list_all2 (\<lambda>(k, s) (k', c). k' = k \<and> cosine_similarity q s = Inr c) its cs"
    and "distinct (map fst its)" and "(k, c) \<in> set cs"
  shows "\<exists>s. map_of its k = Some s \<and> cosine_similarity q s = Inr c"
proof -
  from assms(1,3) have "\<exists>s. (k, s) \<in> set its \<and> cosine_similarity q s = Inr c"
    by (induction rule: list_all2_induct) auto
  with assms(2) show ?thesis
    by auto
qed

text \<open>
  C3. Take a memory and a query vector such that every stored vector has the length of the
  query, and neither the query nor a stored vector consists of zeros only (every bipolar
  vector of positive length is such a vector: \<open>bipolar_nonzero\<close>). Then \<open>query\<close>
  succeeds; the keys of the result are the stored keys, each exactly once; every pair
  \<open>(k, c)\<close> of the result carries the similarity \<open>c\<close> of the query and the vector stored
  under \<open>k\<close>; and the result is sorted by score, descending.
\<close>

theorem query_ranks_all:
  assumes "wf_items self" and "nonzero q"
    and "\<forall>(k, s) \<in> set (items self). nonzero s \<and> length s = length q"
  shows "\<exists>r. query self q = Inr r
           \<and> mset (map fst r) = mset (map fst (items self)) \<and> distinct (map fst r)
           \<and> (\<forall>(k, c) \<in> set r. \<exists>s. map_of (items self) k = Some s \<and> cosine_similarity q s = Inr c)
           \<and> sorted_wrt (\<lambda>a b. float_ge (snd a) (snd b)) r"
proof -
  from scores_of_nonzero [OF assms(2,3)] obtain cs where cs: "scores_of q (items self) = Inr cs"
    and keys: "map fst cs = map fst (items self)"
    and nan: "\<forall>e \<in> set cs. snd e \<noteq> NaN"
    and sc: "list_all2 (\<lambda>(k, s) (k', c). k' = k \<and> cosine_similarity q s = Inr c) (items self) cs"
    by blast
  let ?r = "sorted_reverse snd cs"
  have q: "query self q = Inr ?r"
    by (simp add: query_def cs)
  have m: "mset ?r = mset cs"
    by (rule sorted_reverse_mset)
  then have "mset (map fst ?r) = mset (map fst cs)"
    by (metis mset_map)
  with keys have k: "mset (map fst ?r) = mset (map fst (items self))"
    by simp
  then have d: "distinct (map fst ?r)"
    using assms(1) by (metis wf_items_def mset_eq_imp_distinct_iff)
  from m have "set ?r = set cs"
    by (metis set_mset_mset)
  moreover have "distinct (map fst (items self))"
    using assms(1) by (simp add: wf_items_def)
  ultimately have e: "\<forall>(k, c) \<in> set ?r. \<exists>s. map_of (items self) k = Some s \<and> cosine_similarity q s = Inr c"
    using scored_entry_stored [OF sc] by blast
  from nan have "sorted_wrt (\<lambda>a b. float_ge (snd a) (snd b)) ?r"
    by (rule sorted_reverse_descending)
  with q k d e show ?thesis
    by blast
qed

theorem query_ranks_all_witness:
  "wf_items example_memory \<and> nonzero [1, 1]
   \<and> list_all (\<lambda>(k, s). nonzero s \<and> length s = length [1, 1 :: int8]) (items example_memory)
   \<and> (\<exists>r. query example_memory [1, 1] = Inr r
         \<and> mset (map fst r) = mset (map fst (items example_memory)) \<and> distinct (map fst r)
         \<and> (\<forall>(k, c) \<in> set r. \<exists>s. map_of (items example_memory) k = Some s
                \<and> cosine_similarity [1, 1] s = Inr c)
         \<and> sorted_wrt (\<lambda>a b. float_ge (snd a) (snd b)) r)"
proof -
  have h1: "wf_items example_memory"
    by (simp add: wf_items_def example_memory_def)
  have h2: "nonzero [1, 1]"
    by (simp add: nonzero_def)
  have h3: "\<forall>(k, s) \<in> set (items example_memory). nonzero s \<and> length s = length [1, 1 :: int8]"
    by (simp add: example_memory_def nonzero_def)
  then have "list_all (\<lambda>(k, s). nonzero s \<and> length s = length [1, 1 :: int8]) (items example_memory)"
    by (simp add: list_all_iff)
  with query_ranks_all [OF h1 h2 h3] h1 h2 show ?thesis
    by blast
qed

text \<open>
  C10. Under the same conditions, the ranking is stable: for every score \<open>c\<close>, the entries
  of the result with score \<open>c\<close> are the entries with score \<open>c\<close> of the unsorted score
  list, in the same order, and the unsorted list follows the order of the keys in the
  memory. That order is the order of first insertion: \<open>add\<close> leaves the keys as they are
  when the key is present and puts a new key last.
\<close>

theorem query_ties_in_insertion_order:
  assumes "wf_items self" and "nonzero q"
    and "\<forall>(k, s) \<in> set (items self). nonzero s \<and> length s = length q"
  shows "(\<exists>cs r. scores_of q (items self) = Inr cs \<and> map fst cs = map fst (items self)
            \<and> query self q = Inr r
            \<and> (\<forall>c. filter (\<lambda>e. snd e = c) r = filter (\<lambda>e. snd e = c) cs))
         \<and> map fst (items (add self key vector))
             = (if key \<in> set (map fst (items self)) then map fst (items self)
                else map fst (items self) @ [key])"
proof -
  from scores_of_nonzero [OF assms(2,3)] obtain cs where cs: "scores_of q (items self) = Inr cs"
    and keys: "map fst cs = map fst (items self)"
    and nan: "\<forall>e \<in> set cs. snd e \<noteq> NaN"
    by blast
  have "query self q = Inr (sorted_reverse snd cs)"
    by (simp add: query_def cs)
  moreover have "\<forall>c. filter (\<lambda>e. snd e = c) (sorted_reverse snd cs) = filter (\<lambda>e. snd e = c) cs"
    using sorted_reverse_stable [OF nan] by blast
  moreover have "map fst (items (add self key vector))
             = (if key \<in> set (map fst (items self)) then map fst (items self)
                else map fst (items self) @ [key])"
    by (simp add: add_def keys_setitem)
  ultimately show ?thesis
    using cs keys by blast
qed


theorem query_ties_in_insertion_order_witness:
  "wf_items example_memory \<and> nonzero [1, 1]
   \<and> list_all (\<lambda>(k, s). nonzero s \<and> length s = length [1, 1 :: int8]) (items example_memory)
   \<and> query example_memory [1, 1]
       = Inr [(''b'', Finite 1), (''d'', Finite 1), (''a'', Finite 0), (''c'', Finite 0)]
   \<and> (\<exists>cs r. scores_of [1, 1] (items example_memory) = Inr cs
         \<and> map fst cs = map fst (items example_memory)
         \<and> query example_memory [1, 1] = Inr r
         \<and> (\<forall>c. filter (\<lambda>e. snd e = c) r = filter (\<lambda>e. snd e = c) cs))
   \<and> map fst (items (add example_memory ''b'' [- 1, - 1])) = map fst (items example_memory)"
proof -
  have h1: "wf_items example_memory"
    by (simp add: wf_items_def example_memory_def)
  have h2: "nonzero [1, 1]"
    by (simp add: nonzero_def)
  have h3: "\<forall>(k, s) \<in> set (items example_memory). nonzero s \<and> length s = length [1, 1 :: int8]"
    by (simp add: example_memory_def nonzero_def)
  then have l: "list_all (\<lambda>(k, s). nonzero s \<and> length s = length [1, 1 :: int8]) (items example_memory)"
    by (simp add: list_all_iff)
  have q: "query example_memory [1, 1]
       = Inr [(''b'', Finite 1), (''d'', Finite 1), (''a'', Finite 0), (''c'', Finite 0)]"
    by (simp add: query_def example_memory_def sorted_reverse_def list_sort_def
        cosine_similarity_def dot_def true_divide_def linalg_norm_def)
  have "''b'' \<in> set (map fst (items example_memory))"
    by (simp add: example_memory_def)
  with query_ties_in_insertion_order [OF h1 h2 h3, of "''b''" "[- 1, - 1]"] h1 h2 l q
  show ?thesis
    by simp
qed

end
